theory Spec2Isabelle
  imports Complex_Main "HOL-Library.AList"
begin

section \<open>Token bookkeeping (db.py)\<close>

text \<open>
  The \<open>users\<close> table has \<open>user_id\<close> as primary key, so it is a partial map from
  user ids to rows. The column \<open>tokens_remaining\<close> is declared \<open>INTEGER DEFAULT 0\<close>
  and every statement of db.py that writes it stores an integer; SQLite integers are
  modelled as unbounded \<open>int\<close> (the only arithmetic verified here is \<open>n - 1\<close> for
  \<open>n > 0\<close>, which cannot leave the 64-bit range).
  Every function opens its own connection, commits and closes it, so the table is
  passed in and returned.
\<close>

record user_row =
  tokens_remaining :: int
  pass_expiry :: "string option"

type_synonym users = "string \<rightharpoonup> user_row"

text \<open>\<open>SELECT * FROM users WHERE user_id = ?\<close>; on a miss the row is inserted with
  zero tokens and the default (NULL) expiry.\<close>

definition get_or_create_user :: "users \<Rightarrow> string \<Rightarrow> user_row \<times> users" where
  "get_or_create_user tbl user_id =
     (case tbl user_id of
        Some row \<Rightarrow> (row, tbl)
      | None \<Rightarrow>
          (\<lparr>tokens_remaining = 0, pass_expiry = None\<rparr>,
           tbl(user_id \<mapsto> \<lparr>tokens_remaining = 0, pass_expiry = None\<rparr>)))"

text \<open>\<open>UPDATE users SET tokens_remaining = f(tokens_remaining) WHERE user_id = ?\<close>:
  the stored value is rewritten, and nothing happens when no row matches.\<close>

definition update_tokens :: "users \<Rightarrow> string \<Rightarrow> (int \<Rightarrow> int) \<Rightarrow> users" where
  "update_tokens tbl user_id f =
     (case tbl user_id of
        None \<Rightarrow> tbl
      | Some row \<Rightarrow> tbl(user_id \<mapsto> row\<lparr>tokens_remaining := f (tokens_remaining row)\<rparr>))"

definition decrement_token :: "users \<Rightarrow> string \<Rightarrow> bool \<times> users" where
  "decrement_token tbl user_id =
     (let (u, tbl1) = get_or_create_user tbl user_id
      in if tokens_remaining u > 0
         then (True, update_tokens tbl1 user_id (\<lambda>n. n - 1))
         else (False, tbl1))"


section \<open>The vector store (vector_store.py)\<close>

subsection \<open>Data\<close>

text \<open>
  A floating-point value (an entry of a numpy array, a numpy scalar, a Python float)
  is NaN, an infinity or a finite number. Only the value is modelled, not the format:
  which finite numbers a float32 or a float64 can hold, and how a result is rounded,
  belongs to numpy's arithmetic, which is a parameter below. \<open>float(x)\<close> on a numpy
  scalar keeps the value, so it does not appear. An embedding is a one-dimensional
  numpy array.
\<close>

datatype pyfloat = NaN | NegInf | Fin real | PosInf

type_synonym vector = "pyfloat list"

text \<open>The comparisons \<open><\<close> and \<open>>=\<close> of floats: every comparison with NaN is
  false, and the other values are ordered as numbers.\<close>

fun float_lt :: "pyfloat \<Rightarrow> pyfloat \<Rightarrow> bool" where
  "float_lt NaN y = False"
| "float_lt x NaN = False"
| "float_lt NegInf NegInf = False"
| "float_lt NegInf y = True"
| "float_lt (Fin a) (Fin b) = (a < b)"
| "float_lt (Fin a) PosInf = True"
| "float_lt (Fin a) NegInf = False"
| "float_lt PosInf y = False"

definition float_ge :: "pyfloat \<Rightarrow> pyfloat \<Rightarrow> bool" where
  "float_ge x y \<longleftrightarrow> x \<noteq> NaN \<and> y \<noteq> NaN \<and> \<not> float_lt x y"

text \<open>The Python float that the literal \<open>1e-8\<close> denotes: the double nearest to
  \<open>10\<^sup>-\<^sup>8\<close>.\<close>

definition eps :: pyfloat where
  "eps = Fin (3022314549036573 / 2 ^ 78)"

text \<open>
  Python exceptions are values. Only the exception classes the modelled paths can
  raise are listed.
\<close>

datatype error =
    AttributeError
  | ProgrammingError
  | UnpicklingError
  | ValueError
  | KeyError

text \<open>
  The external collaborators of the store: the sentence-embedding model, the pickle
  codec and numpy's floating-point arithmetic. None is code of this repository, so
  all are parameters.
  \<open>encode\<close> embeds one text; \<open>dumps\<close> serialises a vector to a blob of an
  unspecified type \<open>'b\<close>; \<open>loads\<close> may raise on a blob it cannot read.
  \<open>np_inner\<close> is the value of \<open>np.dot\<close> on two arrays of equal length,
  \<open>np_norm\<close> is \<open>np.linalg.norm\<close>, and \<open>np_multiply\<close>, \<open>np_add\<close> and
  \<open>np_divide\<close> are \<open>*\<close>, \<open>+\<close> and \<open>/\<close> on numpy scalars, which return a value
  (possibly an infinity or NaN) and do not raise.
\<close>

record 'b deps =
  encode :: "string \<Rightarrow> vector"
  dumps :: "vector \<Rightarrow> 'b"
  loads :: "'b \<Rightarrow> error + vector"
  np_inner :: "vector \<Rightarrow> vector \<Rightarrow> pyfloat"
  np_norm :: "vector \<Rightarrow> pyfloat"
  np_multiply :: "pyfloat \<Rightarrow> pyfloat \<Rightarrow> pyfloat"
  np_add :: "pyfloat \<Rightarrow> pyfloat \<Rightarrow> pyfloat"
  np_divide :: "pyfloat \<Rightarrow> pyfloat \<Rightarrow> pyfloat"

text \<open>\<open>self.model.encode(texts)\<close> on a list: one row per text.\<close>

definition encode_batch :: "'b deps \<Rightarrow> string list \<Rightarrow> vector list" where
  "encode_batch env txts = map (encode env) txts"

datatype connection = Open | Closed

text \<open>
  Python dictionaries keep insertion order, and \<open>similarity_search\<close> iterates over
  one, so \<open>self.vectors\<close> and \<open>self.texts\<close> are association lists: assigning to an
  existing key keeps its place, a new key goes to the end (\<open>AList.update\<close>).
  \<open>conn\<close> is \<open>None\<close> before \<open>_init_db\<close> has run. \<open>db\<close> is the content of the table
  \<open>vectors (id, text, vector)\<close> in the database file, in row order.
\<close>

record 'b store =
  vectors :: "(string \<times> vector) list"
  texts :: "(string \<times> string) list"
  conn :: "connection option"
  db :: "(string \<times> string \<times> 'b) list"

text \<open>\<open>_init_db\<close>: connect; \<open>CREATE TABLE IF NOT EXISTS\<close> leaves existing rows alone.\<close>

definition init_db :: "'b store \<Rightarrow> 'b store" where
  "init_db s = s\<lparr>conn := Some Open\<rparr>"

text \<open>\<open>__init__\<close>, given the rows already in the database file (none for a new file).\<close>

definition init_store :: "(string \<times> string \<times> 'b) list \<Rightarrow> 'b store" where
  "init_store rows = init_db \<lparr>vectors = [], texts = [], conn = None, db = rows\<rparr>"

text \<open>\<open>self.conn.cursor()\<close>: an attribute error on \<open>None\<close>, a programming error on a
  closed connection.\<close>

definition cursor :: "'b store \<Rightarrow> error + unit" where
  "cursor s =
     (case conn s of
        None \<Rightarrow> Inl AttributeError
      | Some Closed \<Rightarrow> Inl ProgrammingError
      | Some Open \<Rightarrow> Inr ())"

text \<open>\<open>INSERT OR REPLACE\<close> on a table with primary key \<open>id\<close>: the conflicting row is
  deleted and the new row is inserted.\<close>

definition insert_or_replace ::
  "string \<times> string \<times> 'b \<Rightarrow> (string \<times> string \<times> 'b) list \<Rightarrow> (string \<times> string \<times> 'b) list" where
  "insert_or_replace row rows = filter (\<lambda>r. fst r \<noteq> fst row) rows @ [row]"

subsection \<open>Ingestion\<close>

text \<open>Python's \<open>str(i)\<close> for a non-negative integer.\<close>

definition digit_char :: "nat \<Rightarrow> char" where
  "digit_char d = char_of (48 + d)"

function str_nat :: "nat \<Rightarrow> string" where
  "str_nat n = (if n < 10 then [digit_char n] else str_nat (n div 10) @ [digit_char (n mod 10)])"
  by pat_completeness auto
termination
  by (relation "measure (\<lambda>n. n)") auto

declare str_nat.simps [simp del]

text \<open>\<open>[f"doc_{i}" for i in range(len(texts))]\<close>\<close>

definition default_ids :: "string list \<Rightarrow> string list" where
  "default_ids txts = map (\<lambda>i. ''doc_'' @ str_nat i) [0..<length txts]"

text \<open>The body of the loop over \<open>zip(ids, texts, embeddings)\<close>, and the loop.\<close>

definition add_one :: "'b deps \<Rightarrow> string \<times> string \<times> vector \<Rightarrow> 'b store \<Rightarrow> 'b store" where
  "add_one env t s =
     (case t of (doc_id, text, embedding) \<Rightarrow>
        s\<lparr>vectors := AList.update doc_id embedding (vectors s),
          texts := AList.update doc_id text (texts s),
          db := insert_or_replace (doc_id, text, dumps env embedding) (db s)\<rparr>)"

fun add_loop :: "'b deps \<Rightarrow> (string \<times> string \<times> vector) list \<Rightarrow> 'b store \<Rightarrow> 'b store" where
  "add_loop env [] s = s"
| "add_loop env (t # rest) s = add_loop env rest (add_one env t s)"

definition add_texts ::
  "'b deps \<Rightarrow> 'b store \<Rightarrow> string list \<Rightarrow> string list option \<Rightarrow> (error + string list) \<times> 'b store" where
  "add_texts env s txts ids_opt =
     (let ids = (case ids_opt of None \<Rightarrow> default_ids txts | Some given \<Rightarrow> given);
          embeddings = encode_batch env txts
      in case cursor s of
           Inl e \<Rightarrow> (Inl e, s)
         | Inr _ \<Rightarrow> (Inr ids, add_loop env (zip ids (zip txts embeddings)) s))"

subsection \<open>Hydration\<close>

text \<open>The loop of \<open>_load_all_vectors\<close> over the fetched rows: \<open>pickle.loads\<close> runs
  before either dictionary is assigned, and an exception leaves the loop with the
  earlier rows already in the cache.\<close>

fun load_loop ::
  "'b deps \<Rightarrow> (string \<times> string \<times> 'b) list \<Rightarrow> 'b store \<Rightarrow> (error + unit) \<times> 'b store" where
  "load_loop env [] s = (Inr (), s)"
| "load_loop env ((doc_id, text, vector_bytes) # rest) s =
     (case loads env vector_bytes of
        Inl e \<Rightarrow> (Inl e, s)
      | Inr v \<Rightarrow>
          load_loop env rest
            (s\<lparr>vectors := AList.update doc_id v (vectors s),
               texts := AList.update doc_id text (texts s)\<rparr>))"

definition load_all_vectors :: "'b deps \<Rightarrow> 'b store \<Rightarrow> (error + unit) \<times> 'b store" where
  "load_all_vectors env s =
     (case cursor s of
        Inl e \<Rightarrow> (Inl e, s)
      | Inr _ \<Rightarrow> load_loop env (db s) s)"

subsection \<open>Similarity search\<close>

text \<open>\<open>np.dot\<close> on two one-dimensional arrays raises when their lengths differ.\<close>

definition np_dot :: "'b deps \<Rightarrow> vector \<Rightarrow> vector \<Rightarrow> error + pyfloat" where
  "np_dot env a b =
     (if length a = length b then Inr (np_inner env a b) else Inl ValueError)"

text \<open>\<open>np.dot(q, v) / (np.linalg.norm(q) * np.linalg.norm(v) + 1e-8)\<close>: the dot
  product is evaluated first.\<close>

definition cosine :: "'b deps \<Rightarrow> vector \<Rightarrow> vector \<Rightarrow> error + pyfloat" where
  "cosine env q v =
     (case np_dot env q v of
        Inl e \<Rightarrow> Inl e
      | Inr d \<Rightarrow>
          Inr (np_divide env d
                 (np_add env (np_multiply env (np_norm env q) (np_norm env v)) eps)))"

text \<open>The loop over \<open>self.vectors.items()\<close>: the similarity is computed first, then
  \<open>self.texts[doc_id]\<close> is looked up.\<close>

fun similarities ::
  "'b deps \<Rightarrow> vector \<Rightarrow> (string \<times> string) list \<Rightarrow> (string \<times> vector) list
     \<Rightarrow> error + (string \<times> pyfloat) list" where
  "similarities env q txs [] = Inr []"
| "similarities env q txs ((doc_id, v) # rest) =
     (case cosine env q v of
        Inl e \<Rightarrow> Inl e
      | Inr sim \<Rightarrow>
          (case map_of txs doc_id of
             None \<Rightarrow> Inl KeyError
           | Some text \<Rightarrow>
               (case similarities env q txs rest of
                  Inl e \<Rightarrow> Inl e
                | Inr sims \<Rightarrow> Inr ((text, sim) # sims))))"

text \<open>
  \<open>list.sort\<close> compares keys with \<open><\<close> only and is stable: an element ends up
  behind every element that is not greater and came before it. \<open>list_sort\<close> inserts
  the elements one by one, each behind the elements already placed that are not
  greater. Where \<open><\<close> orders the keys (none is NaN) this is the list every stable
  sort returns. With a NaN among the keys \<open>list.sort\<close> still returns a permutation
  of its input, which one depends on its merge strategy; \<open>list_sort\<close> returns the
  permutation of the insertion sort, which is what \<open>list.sort\<close> returns on two
  elements.

  \<open>list.sort(key=..., reverse=True)\<close>: the list is reversed, sorted in ascending
  order of the key, and reversed again, so equal keys keep their order.
\<close>

fun insort_lt :: "('a \<Rightarrow> pyfloat) \<Rightarrow> 'a \<Rightarrow> 'a list \<Rightarrow> 'a list" where
  "insort_lt key x [] = [x]"
| "insort_lt key x (y # ys) =
     (if float_lt (key x) (key y) then x # y # ys else y # insort_lt key x ys)"

definition list_sort :: "('a \<Rightarrow> pyfloat) \<Rightarrow> 'a list \<Rightarrow> 'a list" where
  "list_sort key xs = foldl (\<lambda>acc x. insort_lt key x acc) [] xs"

definition sort_reverse :: "('a \<Rightarrow> pyfloat) \<Rightarrow> 'a list \<Rightarrow> 'a list" where
  "sort_reverse key xs = rev (list_sort key (rev xs))"

text \<open>The slice \<open>xs[:k]\<close>: a negative \<open>k\<close> counts from the end.\<close>

definition slice_to :: "int \<Rightarrow> 'a list \<Rightarrow> 'a list" where
  "slice_to k xs =
     (if 0 \<le> k then take (nat k) xs else take (length xs - nat (- k)) xs)"

definition similarity_search ::
  "'b deps \<Rightarrow> 'b store \<Rightarrow> string \<Rightarrow> int \<Rightarrow> (error + (string \<times> pyfloat) list) \<times> 'b store" where
  "similarity_search env s query k =
     (let query_embedding = encode env query;
          (r, s1) = (if vectors s = [] then load_all_vectors env s else (Inr (), s))
      in case r of
           Inl e \<Rightarrow> (Inl e, s1)
         | Inr _ \<Rightarrow>
             (case similarities env query_embedding (texts s1) (vectors s1) of
                Inl e \<Rightarrow> (Inl e, s1)
              | Inr sims \<Rightarrow> (Inr (slice_to k (sort_reverse snd sims)), s1)))"

subsection \<open>Teardown\<close>

text \<open>\<open>close\<close>: a connection object is truthy whether open or closed, and closing a
  closed connection does nothing.\<close>

definition close :: "'b store \<Rightarrow> 'b store" where
  "close s = (case conn s of None \<Rightarrow> s | Some c \<Rightarrow> s\<lparr>conn := Some Closed\<rparr>)"


subsection \<open>Representation invariant\<close>

text \<open>A dictionary has each key once, the two dictionaries of the store are always
  assigned together, and \<open>id\<close> is the primary key of the table.\<close>

definition wf :: "'b store \<Rightarrow> bool" where
  "wf s \<longleftrightarrow>
     distinct (map fst (vectors s)) \<and> distinct (map fst (texts s)) \<and>
     distinct (map fst (db s)) \<and> map fst (texts s) = map fst (vectors s)"

subsection \<open>A concrete instance of the collaborators\<close>

text \<open>
  An encoder, a codec and an arithmetic on which the model is evaluated at concrete
  inputs. A blob is either a pickled vector or unreadable. The example vectors have
  entries 0, 1, 2 or NaN and at most one entry that is not 0; on them every product,
  sum, square root and quotient the search computes is exact in float32, and NaN
  propagates through every operation. The one rounding step is \<open>x + 1e-8\<close>:
  float32 returns \<open>x\<close> itself for \<open>x \<ge> 1/4\<close> and its own nearest value to
  \<open>1e-8\<close>, which is \<open>11258999 / 2\<^sup>5\<^sup>0\<close>, for \<open>x = 0\<close>; no other \<open>x\<close>
  occurs. Infinities and a division of a number other than 0 by 0 do not occur
  either, and this instance maps them to NaN.
\<close>

datatype demo_blob = Pickled vector | Garbage

definition demo_loads :: "demo_blob \<Rightarrow> error + vector" where
  "demo_loads b = (case b of Pickled v \<Rightarrow> Inr v | Garbage \<Rightarrow> Inl UnpicklingError)"

definition demo_encode :: "string \<Rightarrow> vector" where
  "demo_encode t = [Fin (real (length t)), Fin 0]"

fun demo_multiply :: "pyfloat \<Rightarrow> pyfloat \<Rightarrow> pyfloat" where
  "demo_multiply (Fin a) (Fin b) = Fin (a * b)"
| "demo_multiply x y = NaN"

fun demo_plus :: "pyfloat \<Rightarrow> pyfloat \<Rightarrow> pyfloat" where
  "demo_plus (Fin a) (Fin b) = Fin (a + b)"
| "demo_plus x y = NaN"

fun demo_sqrt :: "pyfloat \<Rightarrow> pyfloat" where
  "demo_sqrt (Fin a) = Fin (sqrt a)"
| "demo_sqrt x = NaN"

definition demo_inner :: "vector \<Rightarrow> vector \<Rightarrow> pyfloat" where
  "demo_inner a b = foldl demo_plus (Fin 0) (map (\<lambda>(x, y). demo_multiply x y) (zip a b))"

definition demo_norm :: "vector \<Rightarrow> pyfloat" where
  "demo_norm a = demo_sqrt (foldl demo_plus (Fin 0) (map (\<lambda>x. demo_multiply x x) a))"

fun demo_add :: "pyfloat \<Rightarrow> pyfloat \<Rightarrow> pyfloat" where
  "demo_add (Fin a) e = (if a = 0 then Fin (11258999 / 2 ^ 50) else Fin a)"
| "demo_add x e = NaN"

fun demo_divide :: "pyfloat \<Rightarrow> pyfloat \<Rightarrow> pyfloat" where
  "demo_divide (Fin a) (Fin b) = (if b = 0 then NaN else Fin (a / b))"
| "demo_divide x y = NaN"

definition demo_env :: "demo_blob deps" where
  "demo_env =
     \<lparr>encode = demo_encode, dumps = Pickled, loads = demo_loads,
      np_inner = demo_inner, np_norm = demo_norm, np_multiply = demo_multiply,
      np_add = demo_add, np_divide = demo_divide\<rparr>"

text \<open>Three stored records, and the store after they have been loaded.\<close>

definition demo_rows :: "(string \<times> string \<times> demo_blob) list" where
  "demo_rows =
     [(''a'', ''ta'', Pickled [Fin 1, Fin 0]), (''b'', ''tb'', Pickled [Fin 0, Fin 1]),
      (''c'', ''tc'', Pickled [Fin 2, Fin 0])]"

definition demo_store :: "demo_blob store" where
  "demo_store =
     \<lparr>vectors = [(''a'', [Fin 1, Fin 0]), (''b'', [Fin 0, Fin 1]), (''c'', [Fin 2, Fin 0])],
      texts = [(''a'', ''ta''), (''b'', ''tb''), (''c'', ''tc'')],
      conn = Some Open, db = demo_rows\<rparr>"

text \<open>A store whose cache holds an all-zero vector, and a table with a record whose
  vector has a NaN entry.\<close>

definition zero_store :: "demo_blob store" where
  "zero_store =
     \<lparr>vectors = [(''a'', [Fin 1, Fin 0]), (''z'', [Fin 0, Fin 0])],
      texts = [(''a'', ''ta''), (''z'', ''tz'')],
      conn = Some Open,
      db = [(''a'', ''ta'', Pickled [Fin 1, Fin 0]), (''z'', ''tz'', Pickled [Fin 0, Fin 0])]\<rparr>"

definition nan_rows :: "(string \<times> string \<times> demo_blob) list" where
  "nan_rows = [(''a'', ''ta'', Pickled [Fin 1, Fin 0]), (''n'', ''tn'', Pickled [NaN, Fin 0])]"


section \<open>Token bookkeeping: properties\<close>

text \<open>
  Claim C10. \<open>decrement_token\<close> on a user whose row holds \<open>n > 0\<close> tokens returns
  \<open>True\<close> and stores \<open>n - 1\<close>; on a user whose row holds \<open>n \<le> 0\<close> tokens it returns
  \<open>False\<close> and leaves the table as it is; on a user with no row it returns \<open>False\<close>
  and the row it creates holds \<open>0\<close>. A row that held a non-negative count holds a
  non-negative count afterwards, and no other user's row changes.
\<close>

theorem decrement_token_spec:
  "(tbl user_id = Some row \<and> tokens_remaining row > 0 \<longrightarrow>
      decrement_token tbl user_id =
        (True, tbl(user_id \<mapsto> row\<lparr>tokens_remaining := tokens_remaining row - 1\<rparr>)))
   \<and> (tbl user_id = Some row \<and> tokens_remaining row \<le> 0 \<longrightarrow>
      decrement_token tbl user_id = (False, tbl))
   \<and> (tbl user_id = None \<longrightarrow>
      decrement_token tbl user_id =
        (False, tbl(user_id \<mapsto> \<lparr>tokens_remaining = 0, pass_expiry = None\<rparr>)))
   \<and> (tbl user_id = Some row \<and> tokens_remaining row \<ge> 0 \<longrightarrow>
      (\<exists>row'. snd (decrement_token tbl user_id) user_id = Some row'
             \<and> tokens_remaining row' \<ge> 0))
   \<and> (\<forall>other. other \<noteq> user_id \<longrightarrow>
      snd (decrement_token tbl user_id) other = tbl other)"
  by (auto simp: decrement_token_def get_or_create_user_def update_tokens_def
           split: option.splits)

theorem decrement_token_spec_witness:
  "decrement_token [''u'' \<mapsto> \<lparr>tokens_remaining = 2, pass_expiry = None\<rparr>] ''u'' =
     (True, [''u'' \<mapsto> \<lparr>tokens_remaining = 1, pass_expiry = None\<rparr>])
   \<and> decrement_token [''u'' \<mapsto> \<lparr>tokens_remaining = 0, pass_expiry = None\<rparr>] ''u'' =
     (False, [''u'' \<mapsto> \<lparr>tokens_remaining = 0, pass_expiry = None\<rparr>])
   \<and> decrement_token Map.empty ''u'' =
     (False, [''u'' \<mapsto> \<lparr>tokens_remaining = 0, pass_expiry = None\<rparr>])
   \<and> snd (decrement_token [''u'' \<mapsto> \<lparr>tokens_remaining = 2, pass_expiry = None\<rparr>] ''u'') ''w''
       = None"
  using decrement_token_spec
          [of "[''u'' \<mapsto> \<lparr>tokens_remaining = 2, pass_expiry = None\<rparr>]" "''u''"
              "\<lparr>tokens_remaining = 2, pass_expiry = None\<rparr>"]
        decrement_token_spec
          [of "[''u'' \<mapsto> \<lparr>tokens_remaining = 0, pass_expiry = None\<rparr>]" "''u''"
              "\<lparr>tokens_remaining = 0, pass_expiry = None\<rparr>"]
        decrement_token_spec [of "Map.empty" "''u''" "\<lparr>tokens_remaining = 0, pass_expiry = None\<rparr>"]
  by simp


section \<open>The vector store: auxiliary facts\<close>

lemma conn_add_one [simp]: "conn (add_one env t s) = conn s"
  by (simp add: add_one_def split: prod.splits)

lemma conn_add_loop [simp]: "conn (add_loop env ts s) = conn s"
  by (induction ts arbitrary: s) simp_all

lemma map_of_insert_or_replace:
  "map_of (insert_or_replace (k, v) rows) = (map_of rows)(k \<mapsto> v)"
proof
  fix x
  have "map_of (filter (\<lambda>r. fst r \<noteq> k) rows) x = (if x = k then None else map_of rows x)"
    by (induction rows) auto
  then show "map_of (insert_or_replace (k, v) rows) x = ((map_of rows)(k \<mapsto> v)) x"
    by (auto simp: insert_or_replace_def map_add_def split: option.splits)
qed

lemma filter_insert_or_replace_same:
  "filter (\<lambda>r. fst r = k) (insert_or_replace (k, v) rows) = [(k, v)]"
  by (induction rows) (auto simp: insert_or_replace_def)

lemma filter_insert_or_replace_other:
  "k' \<noteq> k \<Longrightarrow>
   filter (\<lambda>r. fst r = k') (insert_or_replace (k, v) rows) = filter (\<lambda>r. fst r = k') rows"
  by (induction rows) (auto simp: insert_or_replace_def)

lemma distinct_insert_or_replace:
  "distinct (map fst rows) \<Longrightarrow> distinct (map fst (insert_or_replace row rows))"
  by (auto simp: insert_or_replace_def distinct_map_filter)

lemma keys_insert_or_replace:
  "fst ` set (insert_or_replace row rows) = insert (fst row) (fst ` set rows)"
  by (auto simp: insert_or_replace_def)

lemma filter_update_same:
  "distinct (map fst al) \<Longrightarrow> filter (\<lambda>p. fst p = k) (AList.update k v al) = [(k, v)]"
proof (induction al)
  case Nil
  then show ?case by simp
next
  case (Cons p al)
  show ?case
  proof (cases "fst p = k")
    case True
    with Cons.prems have "k \<notin> fst ` set al" by auto
    then have "\<forall>r\<in>set al. fst r \<noteq> k" by blast
    then have "filter (\<lambda>p. fst p = k) al = []" by (simp add: filter_empty_conv)
    with True show ?thesis by simp
  next
    case False
    with Cons show ?thesis by simp
  qed
qed

lemma wf_add_one: "wf s \<Longrightarrow> wf (add_one env t s)"
  by (cases t) (simp add: wf_def add_one_def distinct_update distinct_insert_or_replace update_keys)

lemma wf_add_loop: "wf s \<Longrightarrow> wf (add_loop env ts s)"
  by (induction ts arbitrary: s) (simp_all add: wf_add_one)

lemma texts_add_loop:
  "map_of (texts (add_loop env ts s)) =
     map_of (texts s) ++ map_of (rev (map (\<lambda>(i, t, e). (i, t)) ts))"
proof (induction ts arbitrary: s)
  case Nil
  then show ?case by simp
next
  case (Cons a ts)
  obtain i t e where a: "a = (i, t, e)" by (cases a)
  show ?case
    by (simp add: Cons a add_one_def update_conv' map_add_def fun_eq_iff split: option.splits)
qed

lemma vectors_add_loop:
  "map_of (vectors (add_loop env ts s)) =
     map_of (vectors s) ++ map_of (rev (map (\<lambda>(i, t, e). (i, e)) ts))"
proof (induction ts arbitrary: s)
  case Nil
  then show ?case by simp
next
  case (Cons a ts)
  obtain i t e where a: "a = (i, t, e)" by (cases a)
  show ?case
    by (simp add: Cons a add_one_def update_conv' map_add_def fun_eq_iff split: option.splits)
qed

lemma db_add_loop:
  "map_of (db (add_loop env ts s)) =
     map_of (db s) ++ map_of (rev (map (\<lambda>(i, t, e). (i, t, dumps env e)) ts))"
proof (induction ts arbitrary: s)
  case Nil
  then show ?case by simp
next
  case (Cons a ts)
  obtain i t e where a: "a = (i, t, e)" by (cases a)
  show ?case
    by (simp add: Cons a add_one_def map_of_insert_or_replace map_add_def fun_eq_iff split: option.splits)
qed

lemma keys_vectors_add_loop:
  "fst ` set (vectors (add_loop env ts s)) = fst ` set (vectors s) \<union> fst ` set ts"
proof (induction ts arbitrary: s)
  case Nil
  then show ?case by simp
next
  case (Cons a ts)
  obtain i t e where a: "a = (i, t, e)" by (cases a)
  show ?case
    by (auto simp: Cons a add_one_def dom_update)
qed

lemma keys_db_add_loop:
  "fst ` set (db (add_loop env ts s)) = fst ` set (db s) \<union> fst ` set ts"
proof (induction ts arbitrary: s)
  case Nil
  then show ?case by simp
next
  case (Cons a ts)
  obtain i t e where a: "a = (i, t, e)" by (cases a)
  show ?case
    by (auto simp: Cons a add_one_def keys_insert_or_replace)
qed

lemma digit_char_inj: "a < 10 \<Longrightarrow> b < 10 \<Longrightarrow> digit_char a = digit_char b \<Longrightarrow> a = b"
proof -
  assume a: "a < 10" and b: "b < 10" and eq: "digit_char a = digit_char b"
  from eq have "(of_char (char_of (48 + a)) :: nat) = of_char (char_of (48 + b))"
    by (simp add: digit_char_def)
  then have "(48 + a) mod 256 = (48 + b) mod 256" by simp
  with a b show "a = b" by simp
qed

lemma str_nat_nonempty: "str_nat n \<noteq> []"
  by (subst str_nat.simps) simp

lemma str_nat_inj: "str_nat n = str_nat m \<Longrightarrow> n = m"
proof (induction n arbitrary: m rule: str_nat.induct)
  case (1 n)
  show ?case
  proof (cases "n < 10")
    case n: True
    show ?thesis
    proof (cases "m < 10")
      case True
      with n "1.prems" show ?thesis
        by (simp add: str_nat.simps [of n] str_nat.simps [of m] digit_char_inj)
    next
      case False
      with n "1.prems" show ?thesis
        using str_nat_nonempty [of "m div 10"]
        by (simp add: str_nat.simps [of n] str_nat.simps [of m])
    qed
  next
    case n: False
    show ?thesis
    proof (cases "m < 10")
      case True
      with n "1.prems" show ?thesis
        using str_nat_nonempty [of "n div 10"]
        by (simp add: str_nat.simps [of n] str_nat.simps [of m])
    next
      case False
      with n "1.prems" have e: "str_nat (n div 10) = str_nat (m div 10)"
        and d: "digit_char (n mod 10) = digit_char (m mod 10)"
        by (simp_all add: str_nat.simps [of n] str_nat.simps [of m])
      from "1.IH" [OF n e] have "n div 10 = m div 10" .
      moreover from d have "n mod 10 = m mod 10" by (intro digit_char_inj) simp_all
      ultimately show ?thesis by (metis div_mult_mod_eq)
    qed
  qed
qed

lemma distinct_default_ids: "distinct (default_ids txts)"
  by (auto simp: default_ids_def distinct_map inj_on_def dest: str_nat_inj)

lemma length_default_ids [simp]: "length (default_ids txts) = length txts"
  by (simp add: default_ids_def)

lemma zip3_texts: "map (\<lambda>(i, t, e). (i, t)) (zip ids (zip txts (map f txts))) = zip ids txts"
  by (induction ids arbitrary: txts) (auto simp: zip_Cons1 split: list.splits)

lemma zip3_vectors:
  "map (\<lambda>(i, t, e). (i, e)) (zip ids (zip txts (map f txts))) = zip ids (map f txts)"
  by (induction ids arbitrary: txts) (auto simp: zip_Cons1 split: list.splits)

lemma zip3_rows:
  "map (\<lambda>(i, t, e). (i, t, d e)) (zip ids (zip txts (map f txts))) =
     zip ids (map (\<lambda>t. (t, d (f t))) txts)"
  by (induction ids arbitrary: txts) (auto simp: zip_Cons1 split: list.splits)

lemma zip3_keys:
  "fst ` set (zip ids (zip txts (map f txts))) = set (take (length txts) ids)"
proof -
  have "map fst (zip ids (zip txts (map f txts))) = take (length txts) ids"
    by (simp add: map_fst_zip_take min_def)
  then show ?thesis by (metis set_map)
qed

lemma zip_truncate:
  "zip xs ys = zip (take (min (length xs) (length ys)) xs) (take (min (length xs) (length ys)) ys)"
  by (metis length_zip take_all order_refl take_zip)

lemma map_of_rev_distinct: "distinct (map fst al) \<Longrightarrow> map_of (rev al) = map_of al"
  by (subst map_of_inject_set) (simp_all flip: rev_map)

lemma add_texts_open:
  "conn s = Some Open \<Longrightarrow>
   add_texts env s txts ids_opt =
     (Inr (case ids_opt of None \<Rightarrow> default_ids txts | Some given \<Rightarrow> given),
      add_loop env
        (zip (case ids_opt of None \<Rightarrow> default_ids txts | Some given \<Rightarrow> given)
             (zip txts (map (encode env) txts))) s)"
  by (simp add: add_texts_def cursor_def encode_batch_def Let_def)

lemmas demo_simps =
  demo_env_def demo_encode_def demo_loads_def init_store_def init_db_def
  add_texts_def cursor_def encode_batch_def add_one_def insert_or_replace_def
  default_ids_def Let_def


lemma add_loop_lookup:
  "map_of (rev ts) i = Some (t, e) \<Longrightarrow>
     map_of (texts (add_loop env ts s)) i = Some t
   \<and> map_of (vectors (add_loop env ts s)) i = Some e
   \<and> map_of (db (add_loop env ts s)) i = Some (t, dumps env e)"
proof -
  assume a: "map_of (rev ts) i = Some (t, e)"
  have 1: "map (\<lambda>(i, t, e). (i, t)) ts = map (\<lambda>(k, v). (k, fst v)) ts"
    and 2: "map (\<lambda>(i, t, e). (i, e)) ts = map (\<lambda>(k, v). (k, snd v)) ts"
    and 3: "map (\<lambda>(i, t, e). (i, t, dumps env e)) ts
          = map (\<lambda>(k, v). (k, (fst v, dumps env (snd v)))) ts"
    by auto
  show ?thesis
    using a
    by (simp add: texts_add_loop vectors_add_loop db_add_loop 1 2 3 rev_map map_of_map
        map_add_def)
qed

lemma rows_add_loop:
  "set (db (add_loop env ts s)) \<subseteq> set (db s) \<union> (\<lambda>(i, t, e). (i, t, dumps env e)) ` set ts"
proof (induction ts arbitrary: s)
  case Nil
  then show ?case by simp
next
  case (Cons a ts)
  obtain i t e where a: "a = (i, t, e)" by (cases a)
  have "set (db (add_one env a s)) \<subseteq> insert (i, t, dumps env e) (set (db s))"
    by (auto simp: a add_one_def insert_or_replace_def)
  with Cons.IH [of "add_one env a s"] show ?case
    by (auto simp: a)
qed

lemma cosine_Inr:
  "cosine env q v = Inr sim \<longleftrightarrow>
     length q = length v \<and>
     sim = np_divide env (np_inner env q v)
             (np_add env (np_multiply env (np_norm env q) (np_norm env v)) eps)"
  by (auto simp: cosine_def np_dot_def)

lemma similarities_Inr:
  "similarities env q txs vs = Inr sims \<Longrightarrow>
   list_all2 (\<lambda>(doc_id, v) (tx, sim). map_of txs doc_id = Some tx \<and> cosine env q v = Inr sim)
     vs sims"
proof (induction vs arbitrary: sims)
  case Nil
  then show ?case by simp
next
  case (Cons a vs)
  obtain doc_id v where a: "a = (doc_id, v)" by (cases a)
  from Cons.prems show ?case
    by (auto simp: a Cons.IH split: sum.splits option.splits)
qed

lemma similarities_length:
  "similarities env q txs vs = Inr sims \<Longrightarrow> length sims = length vs"
  by (drule similarities_Inr) (simp add: list_all2_lengthD)

lemma similarities_total:
  "\<forall>(doc_id, v) \<in> set vs. length v = length q \<and> doc_id \<in> fst ` set txs \<Longrightarrow>
   \<exists>sims. similarities env q txs vs = Inr sims"
proof (induction vs)
  case Nil
  then show ?case by simp
next
  case (Cons a vs)
  obtain doc_id v where a: "a = (doc_id, v)" by (cases a)
  from Cons.prems a have l: "length q = length v" and k: "doc_id \<in> fst ` set txs" by auto
  from l obtain sim where c: "cosine env q v = Inr sim" by (auto simp: cosine_def np_dot_def)
  from k obtain tx where t: "map_of txs doc_id = Some tx"
    by (metis domD dom_map_of_conv_image_fst)
  from Cons obtain sims where "similarities env q txs vs = Inr sims" by auto
  with c t show ?case by (simp add: a)
qed

lemma float_lt_trans: "float_lt a b \<Longrightarrow> float_lt b c \<Longrightarrow> float_lt a c"
  by (cases a; cases b; cases c) simp_all

lemma float_lt_asym: "float_lt a b \<Longrightarrow> \<not> float_lt b a"
  by (cases a; cases b) simp_all

lemma float_ge_iff: "a \<noteq> NaN \<Longrightarrow> b \<noteq> NaN \<Longrightarrow> float_ge a b \<longleftrightarrow> \<not> float_lt a b"
  by (simp add: float_ge_def)

lemma set_insort_lt [simp]: "set (insort_lt key x ys) = insert x (set ys)"
  by (induction ys) auto

lemma length_insort_lt [simp]: "length (insort_lt key x ys) = Suc (length ys)"
  by (induction ys) auto

lemma sorted_insort_lt:
  "sorted_wrt (\<lambda>a b. \<not> float_lt (key b) (key a)) ys \<Longrightarrow>
   sorted_wrt (\<lambda>a b. \<not> float_lt (key b) (key a)) (insort_lt key x ys)"
proof (induction ys)
  case Nil
  then show ?case by simp
next
  case (Cons y ys)
  show ?case
  proof (cases "float_lt (key x) (key y)")
    case True
    have "\<not> float_lt (key z) (key x)" if "z \<in> set (y # ys)" for z
    proof
      assume "float_lt (key z) (key x)"
      then have zy: "float_lt (key z) (key y)" using True by (rule float_lt_trans)
      from that Cons.prems have "z = y \<or> \<not> float_lt (key z) (key y)" by auto
      with zy float_lt_asym [of "key z" "key y"] show False by auto
    qed
    with True Cons.prems show ?thesis by simp
  next
    case False
    with Cons show ?thesis by auto
  qed
qed

lemma foldl_insort_lt:
  "set (foldl (\<lambda>acc x. insort_lt key x acc) acc xs) = set acc \<union> set xs"
  "length (foldl (\<lambda>acc x. insort_lt key x acc) acc xs) = length acc + length xs"
  "sorted_wrt (\<lambda>a b. \<not> float_lt (key b) (key a)) acc \<Longrightarrow>
   sorted_wrt (\<lambda>a b. \<not> float_lt (key b) (key a)) (foldl (\<lambda>acc x. insort_lt key x acc) acc xs)"
  by (induction xs arbitrary: acc) (auto simp: sorted_insort_lt)

lemma length_sort_reverse [simp]: "length (sort_reverse key xs) = length xs"
  by (simp add: sort_reverse_def list_sort_def foldl_insort_lt)

lemma set_sort_reverse [simp]: "set (sort_reverse key xs) = set xs"
  by (simp add: sort_reverse_def list_sort_def foldl_insort_lt)

lemma sorted_sort_reverse:
  "sorted_wrt (\<lambda>a b. \<not> float_lt (key a) (key b)) (sort_reverse key xs)"
proof -
  have "sorted_wrt (\<lambda>a b. \<not> float_lt (key b) (key a)) (list_sort key (rev xs))"
    unfolding list_sort_def by (rule foldl_insort_lt(3)) simp
  then show ?thesis
    by (simp add: sort_reverse_def sorted_wrt_rev)
qed

lemma length_slice_to:
  "length (slice_to k xs) = (if 0 \<le> k then min (nat k) (length xs) else length xs - nat (- k))"
proof (cases "0 \<le> k")
  case True
  then show ?thesis by (simp add: slice_to_def min_def)
next
  case False
  have "min (length xs) (length xs - nat (- k)) = length xs - nat (- k)" by arith
  with False show ?thesis by (simp add: slice_to_def)
qed

lemma slice_to_take: "\<exists>n. slice_to k xs = take n xs"
  by (auto simp: slice_to_def)

lemma slice_to_all: "int (length xs) \<le> k \<Longrightarrow> slice_to k xs = xs"
  by (simp add: slice_to_def)

lemma similarity_search_Inr:
  assumes "similarity_search env s query k = (Inr res, s')"
  shows "s' = (if vectors s = [] then snd (load_all_vectors env s) else s)"
    and "vectors s = [] \<Longrightarrow> fst (load_all_vectors env s) = Inr ()"
    and "\<exists>sims. similarities env (encode env query) (texts s') (vectors s') = Inr sims
               \<and> res = slice_to k (sort_reverse snd sims)"
  using assms
  by (auto simp: similarity_search_def Let_def split: if_splits prod.splits sum.splits)

lemma similarity_search_cached:
  "vectors s \<noteq> [] \<Longrightarrow>
   similarity_search env s query k =
     (case similarities env (encode env query) (texts s) (vectors s) of
        Inl e \<Rightarrow> (Inl e, s)
      | Inr sims \<Rightarrow> (Inr (slice_to k (sort_reverse snd sims)), s))"
  by (simp add: similarity_search_def)

lemma load_loop_frame [simp]:
  "db (snd (load_loop env rows s)) = db s" "conn (snd (load_loop env rows s)) = conn s"
  by (induction env rows s rule: load_loop.induct) (simp_all split: sum.splits)

lemma wf_load_loop: "wf s \<Longrightarrow> wf (snd (load_loop env rows s))"
proof (induction env rows s rule: load_loop.induct)
  case (1 env s)
  then show ?case by simp
next
  case (2 env doc_id tx vector_bytes rest s)
  show ?case
  proof (cases "loads env vector_bytes")
    case (Inl e)
    with 2 show ?thesis by simp
  next
    case (Inr v)
    from "2.prems" have "wf (s\<lparr>vectors := AList.update doc_id v (vectors s),
                               texts := AList.update doc_id tx (texts s)\<rparr>)"
      by (simp add: wf_def distinct_update update_keys)
    with 2 Inr show ?thesis by simp
  qed
qed

lemma load_loop_corrupt:
  assumes "\<forall>(i, t, b) \<in> set good. \<exists>v. loads env b = Inr v"
    and "loads env blob = Inl e"
  shows "fst (load_loop env (good @ (doc_id, text, blob) # rest) s) = Inl e
       \<and> fst ` set (vectors (snd (load_loop env (good @ (doc_id, text, blob) # rest) s)))
           = fst ` set (vectors s) \<union> fst ` set good
       \<and> fst ` set (texts (snd (load_loop env (good @ (doc_id, text, blob) # rest) s)))
           = fst ` set (texts s) \<union> fst ` set good"
  using assms(1)
proof (induction good arbitrary: s)
  case Nil
  then show ?case by (simp add: assms(2))
next
  case (Cons a good)
  obtain i t b where a: "a = (i, t, b)" by (cases a)
  from Cons.prems a obtain v where v: "loads env b = Inr v" by auto
  from Cons.prems have "\<forall>(i, t, b) \<in> set good. \<exists>v. loads env b = Inr v" by simp
  from Cons.IH [OF this] show ?case
    by (auto simp: a v dom_update)
qed

lemma load_loop_ok:
  assumes "\<forall>(i, t, b) \<in> set rows. \<exists>v. loads env b = Inr v"
  shows "fst (load_loop env rows s) = Inr ()"
    and "map_of (rev rows) i = Some (t, b) \<Longrightarrow>
         \<exists>v. loads env b = Inr v
            \<and> map_of (vectors (snd (load_loop env rows s))) i = Some v
            \<and> map_of (texts (snd (load_loop env rows s))) i = Some t"
    and "map_of (rev rows) i = None \<Longrightarrow>
         map_of (vectors (snd (load_loop env rows s))) i = map_of (vectors s) i
       \<and> map_of (texts (snd (load_loop env rows s))) i = map_of (texts s) i"
  using assms
proof (induction rows arbitrary: s)
  case Nil
  { case 1 show ?case by simp }
  { case 2 then show ?case by simp }
  { case 3 show ?case by simp }
next
  case (Cons a rows)
  obtain i' t' b' where a: "a = (i', t', b')" by (cases a)
  { case 1
    from 1 a obtain v where v: "loads env b' = Inr v" by auto
    from 1 have "\<forall>(i, t, b) \<in> set rows. \<exists>v. loads env b = Inr v" by simp
    from Cons.IH(1) [OF this] show ?case by (simp add: a v) }
  { case 2
    from 2(2) a obtain v where v: "loads env b' = Inr v" by auto
    from 2(2) have r: "\<forall>(i, t, b) \<in> set rows. \<exists>v. loads env b = Inr v" by simp
    show ?case
    proof (cases "map_of (rev rows) i")
      case None
      with 2(1) a have e: "i = i'" "t = t'" "b = b'"
        by (auto simp: map_add_def split: if_splits)
      from Cons.IH(3) [OF None r] show ?thesis
        by (simp add: a v e update_conv')
    next
      case (Some p)
      with 2(1) have "map_of (rev rows) i = Some (t, b)" by (simp add: map_add_def)
      from Cons.IH(2) [OF this r] show ?thesis by (simp add: a v)
    qed }
  { case 3
    from 3(2) a obtain v where v: "loads env b' = Inr v" by auto
    from 3(2) have r: "\<forall>(i, t, b) \<in> set rows. \<exists>v. loads env b = Inr v" by simp
    from 3(1) a have n: "map_of (rev rows) i = None" and ne: "i \<noteq> i'"
      by (auto simp: map_add_def split: option.splits if_splits)
    from Cons.IH(3) [OF n r] ne show ?case
      by (simp add: a v update_conv') }
qed

lemma load_all_vectors_open:
  "conn s = Some Open \<Longrightarrow> load_all_vectors env s = load_loop env (db s) s"
  by (simp add: load_all_vectors_def cursor_def)

lemma load_loop_stops:
  assumes "\<forall>(i, t, b) \<in> set good. \<exists>v. loads env b = Inr v"
    and "loads env blob = Inl e"
  shows "load_loop env (good @ (doc_id, tx, blob) # rest) s = (Inl e, snd (load_loop env good s))"
  using assms(1)
proof (induction good arbitrary: s)
  case Nil
  then show ?case by (simp add: assms(2))
next
  case (Cons a good)
  obtain i t b where a: "a = (i, t, b)" by (cases a)
  from Cons.prems a obtain v where v: "loads env b = Inr v" by auto
  from Cons.prems have "\<forall>(i, t, b) \<in> set good. \<exists>v. loads env b = Inr v" by simp
  from Cons.IH [OF this] show ?case by (simp add: a v)
qed

lemma update_fresh: "k \<notin> fst ` set al \<Longrightarrow> AList.update k v al = al @ [(k, v)]"
  by (induction al) auto

lemma load_loop_fresh:
  assumes "\<forall>(i, t, b) \<in> set rows. \<exists>v. loads env b = Inr v"
    and "distinct (map fst rows)"
    and "fst ` set rows \<inter> fst ` set (vectors s) = {}"
    and "fst ` set rows \<inter> fst ` set (texts s) = {}"
  shows "texts (snd (load_loop env rows s)) = texts s @ map (\<lambda>(i, t, b). (i, t)) rows
       \<and> map (\<lambda>(i, v). (i, Inr v)) (vectors (snd (load_loop env rows s)))
           = map (\<lambda>(i, v). (i, Inr v)) (vectors s) @ map (\<lambda>(i, t, b). (i, loads env b)) rows"
  using assms
proof (induction rows arbitrary: s)
  case Nil
  then show ?case by simp
next
  case (Cons a rows)
  obtain i t b where a: "a = (i, t, b)" by (cases a)
  from Cons.prems(1) a obtain v where v: "loads env b = Inr v" by auto
  let ?s = "s\<lparr>vectors := AList.update i v (vectors s), texts := AList.update i t (texts s)\<rparr>"
  from Cons.prems(3,4) a have f: "i \<notin> fst ` set (vectors s)" "i \<notin> fst ` set (texts s)"
    by auto
  have u: "vectors ?s = vectors s @ [(i, v)]" "texts ?s = texts s @ [(i, t)]"
    using f by (simp_all add: update_fresh)
  have 1: "\<forall>(i, t, b) \<in> set rows. \<exists>v. loads env b = Inr v"
    using Cons.prems(1) by simp
  have 2: "distinct (map fst rows)" and ni: "i \<notin> fst ` set rows"
    using Cons.prems(2) a by auto
  have 3: "fst ` set rows \<inter> fst ` set (vectors ?s) = {}"
    using Cons.prems(3) ni by (auto simp: u)
  have 4: "fst ` set rows \<inter> fst ` set (texts ?s) = {}"
    using Cons.prems(4) ni by (auto simp: u)
  from Cons.IH [OF 1 2 3 4] show ?case
    by (simp add: a v u)
qed

lemma wf_keys: "wf s \<Longrightarrow> fst ` set (texts s) = fst ` set (vectors s)"
  by (metis wf_def set_map)

lemma similarity_search_returns:
  assumes "wf s" and "vectors s \<noteq> []"
    and "\<forall>(doc_id, v) \<in> set (vectors s). length v = length (encode env query)"
  shows "\<exists>res. similarity_search env s query k = (Inr res, s)"
proof -
  have "\<forall>(doc_id, v) \<in> set (vectors s).
          length v = length (encode env query) \<and> doc_id \<in> fst ` set (texts s)"
    using assms(3) wf_keys [OF assms(1)] by force
  from similarities_total [OF this] obtain sims
    where "similarities env (encode env query) (texts s) (vectors s) = Inr sims" ..
  with assms(2) show ?thesis by (simp add: similarity_search_cached)
qed

lemma similarity_search_never_populated:
  "similarity_search env (init_store []) query k = (Inr [], init_store [])"
  by (simp add: similarity_search_def load_all_vectors_def cursor_def init_store_def
      init_db_def slice_to_def sort_reverse_def list_sort_def)

lemmas search_simps =
  demo_rows_def demo_store_def zero_store_def nan_rows_def similarity_search_def
  load_all_vectors_def cosine_def np_dot_def demo_inner_def demo_norm_def eps_def
  sort_reverse_def list_sort_def slice_to_def

lemma demo_search_3:
  "similarity_search demo_env demo_store ''q'' 3 =
     (Inr [(''ta'', Fin 1), (''tc'', Fin 1), (''tb'', Fin 0)], demo_store)"
  by (simp add: demo_simps search_simps)

lemma demo_search_2:
  "similarity_search demo_env demo_store ''q'' 2 =
     (Inr [(''ta'', Fin 1), (''tc'', Fin 1)], demo_store)"
  by (simp add: demo_simps search_simps)

lemma zero_search:
  "similarity_search demo_env zero_store ''q'' 2 =
     (Inr [(''ta'', Fin 1), (''tz'', Fin 0)], zero_store)"
  by (simp add: demo_simps search_simps)

lemma wf_demo_store: "wf demo_store"
  by (simp add: wf_def demo_store_def demo_rows_def)

lemma wf_zero_store: "wf zero_store"
  by (simp add: wf_def zero_store_def)


section \<open>Ingestion: properties\<close>

text \<open>
  Claim C1, as stated, fails: with two ids and one text, \<open>add_texts\<close> raises
  nothing, stores the first pair and returns both ids.
\<close>

theorem add_texts_mismatch_counterexample:
  "add_texts demo_env (init_store []) [''t''] (Some [''a'', ''b'']) =
     (Inr [''a'', ''b''],
      \<lparr>vectors = [(''a'', [Fin 1, Fin 0])], texts = [(''a'', ''t'')], conn = Some Open,
       db = [(''a'', ''t'', Pickled [Fin 1, Fin 0])]\<rparr>)"
  by (simp add: demo_simps)

text \<open>
  Claim C1, amended. On an open store, \<open>add_texts\<close> with explicit ids never checks
  their number: it returns the ids as given and stores the first
  \<open>min (length ids) (length txts)\<close> (id, text, embedding) triples, a later triple
  overwriting an earlier one with the same id.
\<close>

theorem add_texts_ids_length_mismatch:
  assumes "conn s = Some Open"
    and "add_texts env s txts (Some ids) = (r, s')"
    and "n = min (length ids) (length txts)"
  shows "r = Inr ids
    \<and> map_of (texts s') = map_of (texts s) ++ map_of (rev (zip (take n ids) (take n txts)))
    \<and> map_of (vectors s') =
        map_of (vectors s) ++ map_of (rev (zip (take n ids) (map (encode env) (take n txts))))
    \<and> fst ` set (vectors s') = fst ` set (vectors s) \<union> set (take n ids)
    \<and> fst ` set (db s') = fst ` set (db s) \<union> set (take n ids)"
proof -
  from assms(1,2) have r: "r = Inr ids"
    and s': "s' = add_loop env (zip ids (zip txts (map (encode env) txts))) s"
    by (simp_all add: add_texts_open)
  have t: "zip ids txts = zip (take n ids) (take n txts)"
    unfolding assms(3) by (rule zip_truncate)
  have v: "zip ids (map (encode env) txts) = zip (take n ids) (map (encode env) (take n txts))"
    using zip_truncate [of ids "map (encode env) txts"] by (simp add: assms(3) take_map)
  have k: "take (length txts) ids = take n ids"
    by (simp add: assms(3) min_def)
  show ?thesis
    by (simp add: r s' texts_add_loop vectors_add_loop keys_vectors_add_loop keys_db_add_loop
        zip3_texts zip3_vectors zip3_keys k flip: t v)
qed

theorem add_texts_ids_length_mismatch_witness:
  "conn (init_store ([] :: (string \<times> string \<times> demo_blob) list)) = Some Open
   \<and> fst (add_texts demo_env (init_store []) [''t''] (Some [''a'', ''b''])) = Inr [''a'', ''b'']
   \<and> fst ` set (db (snd (add_texts demo_env (init_store []) [''t''] (Some [''a'', ''b''])))) = {''a''}"
proof -
  have c: "conn (init_store ([] :: (string \<times> string \<times> demo_blob) list)) = Some Open"
    by (simp add: init_store_def init_db_def)
  have n: "(1::nat) = min (length [''a'', ''b'']) (length [''t''])" by simp
  from add_texts_ids_length_mismatch [OF c prod.collapse [symmetric] n, of demo_env]
  show ?thesis by (simp add: c init_store_def init_db_def)
qed

text \<open>
  Claim C6. On an open store, two calls of \<open>add_texts\<close> with the same explicit id
  leave exactly one entry for that id in each dictionary and exactly one row for it in
  the table, holding the second call's text and the second call's vector (last write
  wins).
\<close>

theorem add_texts_last_write_wins:
  assumes "wf s0" and "conn s0 = Some Open"
    and "add_texts env s0 [t1] (Some [x]) = (r1, s1)"
    and "add_texts env s1 [t2] (Some [x]) = (r2, s2)"
  shows "r2 = Inr [x]
    \<and> filter (\<lambda>p. fst p = x) (texts s2) = [(x, t2)]
    \<and> filter (\<lambda>p. fst p = x) (vectors s2) = [(x, encode env t2)]
    \<and> filter (\<lambda>r. fst r = x) (db s2) = [(x, t2, dumps env (encode env t2))]
    \<and> wf s2"
proof -
  from assms(2,3) have s1: "s1 = add_one env (x, t1, encode env t1) s0"
    by (simp add: add_texts_open)
  with assms(1,2) have w1: "wf s1" and c1: "conn s1 = Some Open"
    by (simp_all add: wf_add_one)
  from c1 assms(4) have r2: "r2 = Inr [x]"
    and s2: "s2 = add_one env (x, t2, encode env t2) s1"
    by (simp_all add: add_texts_open)
  from w1 have d: "distinct (map fst (texts s1))" "distinct (map fst (vectors s1))"
    by (simp_all add: wf_def)
  have "filter (\<lambda>p. fst p = x) (texts s2) = [(x, t2)]"
    by (simp add: s2 add_one_def filter_update_same d)
  moreover have "filter (\<lambda>p. fst p = x) (vectors s2) = [(x, encode env t2)]"
    by (simp add: s2 add_one_def filter_update_same d)
  moreover have "filter (\<lambda>r. fst r = x) (db s2) = [(x, t2, dumps env (encode env t2))]"
    by (simp add: s2 add_one_def filter_insert_or_replace_same)
  moreover have "wf s2" by (simp add: s2 w1 wf_add_one)
  ultimately show ?thesis using r2 by simp
qed

theorem add_texts_last_write_wins_witness:
  "wf (init_store [(''x'', ''old'', Garbage)])
   \<and> conn (init_store [(''x'', ''old'', Garbage)]) = Some Open
   \<and> db (snd (add_texts demo_env
                (snd (add_texts demo_env (init_store [(''x'', ''old'', Garbage)]) [''t''] (Some [''x''])))
                [''uu''] (Some [''x'']))) = [(''x'', ''uu'', Pickled [Fin 2, Fin 0])]
   \<and> vectors (snd (add_texts demo_env
                (snd (add_texts demo_env (init_store [(''x'', ''old'', Garbage)]) [''t''] (Some [''x''])))
                [''uu''] (Some [''x'']))) = [(''x'', [Fin 2, Fin 0])]"
proof -
  have w: "wf (init_store [(''x'', ''old'', Garbage)])"
    by (simp add: wf_def init_store_def init_db_def)
  have c: "conn (init_store [(''x'', ''old'', Garbage)]) = Some Open"
    by (simp add: init_store_def init_db_def)
  from add_texts_last_write_wins [OF w c prod.collapse [symmetric] prod.collapse [symmetric],
      of demo_env "''t''" "''x''" "''uu''"]
  show ?thesis by (simp add: demo_simps wf_def)
qed

text \<open>
  Claim C8. On an open store, \<open>add_texts\<close> without ids returns \<open>doc_0\<close>, ...,
  \<open>doc_(n-1)\<close> for its \<open>n\<close> texts, in that order and whatever the store already
  holds, and the id at position \<open>i\<close> is stored with the text at position \<open>i\<close> and
  its embedding, in the cache and in the table.
\<close>

theorem add_texts_default_ids:
  assumes "conn s = Some Open"
    and "add_texts env s txts None = (r, s')"
  shows "r = Inr (map (\<lambda>i. ''doc_'' @ str_nat i) [0..<length txts])
    \<and> (\<forall>i<length txts.
          map_of (texts s') (''doc_'' @ str_nat i) = Some (txts ! i)
        \<and> map_of (vectors s') (''doc_'' @ str_nat i) = Some (encode env (txts ! i))
        \<and> map_of (db s') (''doc_'' @ str_nat i)
            = Some (txts ! i, dumps env (encode env (txts ! i))))"
proof -
  let ?ids = "default_ids txts"
  from assms have r: "r = Inr ?ids"
    and s': "s' = add_loop env (zip ?ids (zip txts (map (encode env) txts))) s"
    by (simp_all add: add_texts_open)
  have look: "map_of (rev (zip ?ids ys)) (''doc_'' @ str_nat i) = Some (ys ! i)"
    if "length ys = length txts" and "i < length txts" for ys :: "'c list" and i
  proof -
    have "distinct (map fst (zip ?ids ys))"
      using that by (simp add: distinct_default_ids)
    then have "map_of (rev (zip ?ids ys)) = map_of (zip ?ids ys)"
      by (rule map_of_rev_distinct)
    moreover have "map_of (zip ?ids ys) (?ids ! i) = Some (ys ! i)"
      using that by (intro map_of_zip_nth) (simp_all add: distinct_default_ids)
    moreover have "?ids ! i = ''doc_'' @ str_nat i"
      using that by (simp add: default_ids_def)
    ultimately show ?thesis by simp
  qed
  show ?thesis
  proof (intro conjI allI impI)
    show "r = Inr (map (\<lambda>i. ''doc_'' @ str_nat i) [0..<length txts])"
      by (simp add: r default_ids_def)
  next
    fix i assume i: "i < length txts"
    show "map_of (texts s') (''doc_'' @ str_nat i) = Some (txts ! i)"
      using look [of txts i] i by (simp add: s' texts_add_loop zip3_texts map_add_def)
  next
    fix i assume i: "i < length txts"
    show "map_of (vectors s') (''doc_'' @ str_nat i) = Some (encode env (txts ! i))"
      using look [of "map (encode env) txts" i] i
      by (simp add: s' vectors_add_loop zip3_vectors map_add_def)
  next
    fix i assume i: "i < length txts"
    show "map_of (db s') (''doc_'' @ str_nat i) = Some (txts ! i, dumps env (encode env (txts ! i)))"
      using look [of "map (\<lambda>t. (t, dumps env (encode env t))) txts" i] i
      by (simp add: s' db_add_loop zip3_rows map_add_def)
  qed
qed

theorem add_texts_default_ids_witness:
  "conn (init_store ([] :: (string \<times> string \<times> demo_blob) list)) = Some Open
   \<and> fst (add_texts demo_env (init_store []) [''p'', ''qq''] None) = Inr [''doc_0'', ''doc_1'']
   \<and> map_of (texts (snd (add_texts demo_env (init_store []) [''p'', ''qq''] None))) ''doc_1''
       = Some ''qq''"
proof -
  have c: "conn (init_store ([] :: (string \<times> string \<times> demo_blob) list)) = Some Open"
    by (simp add: init_store_def init_db_def)
  have s: "str_nat 0 = ''0''" "str_nat (Suc 0) = ''1''"
    by code_simp+
  have u: "[0..<2] = [0, Suc 0]" by (simp add: upt_rec)
  note t = add_texts_default_ids [OF c prod.collapse [symmetric], of demo_env "[''p'', ''qq'']"]
  from t have a: "fst (add_texts demo_env (init_store []) [''p'', ''qq''] None)
      = Inr (map (\<lambda>i. ''doc_'' @ str_nat i) [0..<length [''p'', ''qq'']])"
    by (rule conjunct1)
  from t have "map_of (texts (snd (add_texts demo_env (init_store []) [''p'', ''qq''] None)))
      (''doc_'' @ str_nat (Suc 0)) = Some ([''p'', ''qq''] ! Suc 0)"
    by simp
  with a show ?thesis by (simp add: c s u)
qed


section \<open>Persistence: properties\<close>

text \<open>
  Claim C7. Taking the contract of the pickle codec as given (\<open>loads\<close> of
  \<open>dumps v\<close> is \<open>v\<close>), on an open store with distinct keys whose table holds
  readable blobs, every vector that \<open>add_texts\<close> writes is stored as the blob of
  exactly the embedding held in the cache, that blob deserialises to the same vector,
  and a new store instance on the same table loads without error and holds that
  identical vector, with its text, under the same id.
\<close>

theorem add_texts_load_roundtrip:
  assumes "\<forall>v. loads env (dumps env v) = Inr v"
    and "wf s" and "conn s = Some Open"
    and "\<forall>(i, t, b) \<in> set (db s). \<exists>v. loads env b = Inr v"
    and "add_texts env s txts ids_opt = (Inr ids, s')"
    and "load_all_vectors env (init_store (db s')) = (r2, s2)"
  shows "r2 = Inr ()
    \<and> (\<forall>i \<in> set (take (length txts) ids).
          \<exists>t. t \<in> set txts
             \<and> map_of (vectors s') i = Some (encode env t)
             \<and> map_of (db s') i = Some (t, dumps env (encode env t))
             \<and> loads env (dumps env (encode env t)) = Inr (encode env t)
             \<and> map_of (vectors s2) i = Some (encode env t)
             \<and> map_of (texts s2) i = Some t)"
proof -
  let ?ts = "zip ids (zip txts (map (encode env) txts))"
  from assms(3,5) have s': "s' = add_loop env ?ts s"
    by (auto simp: add_texts_open)
  have "wf s'" by (simp add: s' assms(2) wf_add_loop)
  then have "distinct (map fst (db s'))" by (simp add: wf_def)
  then have rv: "map_of (rev (db s')) = map_of (db s')" by (rule map_of_rev_distinct)
  have ok: "\<forall>(i, t, b) \<in> set (db s'). \<exists>v. loads env b = Inr v"
    using rows_add_loop [of env ?ts s] assms(1,4) unfolding s' by fastforce
  have l: "load_loop env (db s') (init_store (db s')) = (r2, s2)"
    using assms(6) by (simp add: load_all_vectors_open init_store_def init_db_def)
  from load_loop_ok(1) [OF ok, of "init_store (db s')"] l have r2: "r2 = Inr ()" by simp
  have w: "\<exists>t. t \<in> set txts
             \<and> map_of (vectors s') i = Some (encode env t)
             \<and> map_of (db s') i = Some (t, dumps env (encode env t))
             \<and> loads env (dumps env (encode env t)) = Inr (encode env t)
             \<and> map_of (vectors s2) i = Some (encode env t)
             \<and> map_of (texts s2) i = Some t"
    if "i \<in> set (take (length txts) ids)" for i
  proof -
    from that have "i \<in> fst ` set (rev ?ts)" by (simp add: zip3_keys)
    then obtain p where p: "map_of (rev ?ts) i = Some p"
      by (metis domD dom_map_of_conv_image_fst)
    obtain t e where te: "p = (t, e)" by (cases p)
    from p te have "(i, t, e) \<in> set ?ts" by (auto dest: map_of_SomeD)
    then have "(t, e) \<in> set (zip txts (map (encode env) txts))" by (auto dest: set_zip_rightD)
    then have t: "t \<in> set txts" and e: "e = encode env t"
      by (auto simp: set_zip)
    from add_loop_lookup [of ?ts i t e env s] p te
    have v: "map_of (vectors s') i = Some e" and d: "map_of (db s') i = Some (t, dumps env e)"
      by (simp_all add: s')
    from d rv have "map_of (rev (db s')) i = Some (t, dumps env e)" by simp
    from load_loop_ok(2) [OF ok this, of "init_store (db s')"] l assms(1)
    have "map_of (vectors s2) i = Some e \<and> map_of (texts s2) i = Some t" by simp
    with t e v d assms(1) show ?thesis by auto
  qed
  from r2 w show ?thesis by blast
qed

theorem add_texts_load_roundtrip_witness:
  "(\<forall>v. loads demo_env (dumps demo_env v) = Inr v)
   \<and> wf (init_store [(''z'', ''tz'', Pickled [Fin 0, Fin 1])])
   \<and> fst (add_texts demo_env (init_store [(''z'', ''tz'', Pickled [Fin 0, Fin 1])]) [''uu''] (Some [''x'']))
       = Inr [''x'']
   \<and> map_of (vectors (snd (load_all_vectors demo_env (init_store (db (snd
        (add_texts demo_env (init_store [(''z'', ''tz'', Pickled [Fin 0, Fin 1])]) [''uu''] (Some [''x'']))))))))
        ''x'' = Some [Fin 2, Fin 0]"
proof -
  let ?s = "init_store [(''z'', ''tz'', Pickled [Fin 0, Fin 1])]"
  let ?s1 = "snd (add_texts demo_env ?s [''uu''] (Some [''x'']))"
  let ?s2 = "snd (load_all_vectors demo_env (init_store (db ?s1)))"
  have a: "\<forall>v. loads demo_env (dumps demo_env v) = Inr v"
    by (simp add: demo_env_def demo_loads_def)
  have w: "wf ?s" by (simp add: wf_def init_store_def init_db_def)
  have c: "conn ?s = Some Open" by (simp add: init_store_def init_db_def)
  have o: "\<forall>(i, t, b) \<in> set (db ?s). \<exists>v. loads demo_env b = Inr v"
    by (simp add: init_store_def init_db_def demo_env_def demo_loads_def)
  have r: "add_texts demo_env ?s [''uu''] (Some [''x''])
         = (Inr [''x''], snd (add_texts demo_env ?s [''uu''] (Some [''x''])))"
    by (simp add: demo_simps)
  from add_texts_load_roundtrip [OF a w c o r prod.collapse [symmetric]]
  have "\<exists>t. t \<in> set [''uu''] \<and> map_of (vectors ?s2) ''x'' = Some (encode demo_env t)"
    by simp
  then have v: "map_of (vectors ?s2) ''x'' = Some [Fin 2, Fin 0]"
    by (simp add: demo_env_def demo_encode_def)
  have f: "fst (add_texts demo_env ?s [''uu''] (Some [''x''])) = Inr [''x'']"
    by (simp add: demo_simps)
  from a w f v show ?thesis by blast
qed


section \<open>Hydration: properties\<close>

text \<open>
  Claim C3, as stated, fails: with an unreadable blob in the second of three rows,
  \<open>_load_all_vectors\<close> raises, only the first row has reached the cache, and a
  \<open>similarity_search\<close> that hydrates from this table raises the same error.
\<close>

theorem load_all_vectors_corrupt_counterexample:
  "load_all_vectors demo_env
     (init_store [(''a'', ''ta'', Pickled [Fin 1, Fin 0]), (''b'', ''tb'', Garbage),
                  (''c'', ''tc'', Pickled [Fin 0, Fin 1])]) =
     (Inl UnpicklingError,
      \<lparr>vectors = [(''a'', [Fin 1, Fin 0])], texts = [(''a'', ''ta'')], conn = Some Open,
       db = [(''a'', ''ta'', Pickled [Fin 1, Fin 0]), (''b'', ''tb'', Garbage),
             (''c'', ''tc'', Pickled [Fin 0, Fin 1])]\<rparr>)
   \<and> fst (similarity_search demo_env
       (init_store [(''a'', ''ta'', Pickled [Fin 1, Fin 0]), (''b'', ''tb'', Garbage),
                    (''c'', ''tc'', Pickled [Fin 0, Fin 1])]) ''q'' 3) = Inl UnpicklingError"
  by (simp add: demo_simps load_all_vectors_def similarity_search_def)

text \<open>
  Claim C3, amended. On an open connection, when the first blob that cannot be
  deserialised follows a prefix of readable rows, \<open>_load_all_vectors\<close> raises the
  codec's error to its caller. Every id of the prefix is then cached with the text
  and the deserialised vector of its (last) row in the prefix; every other id,
  those of the unreadable row and of the rows after it included, is cached as it was
  before the call. Starting from an empty cache and distinct ids, the two
  dictionaries hold exactly the rows of the prefix, in row order. The table is
  untouched, and a \<open>similarity_search\<close> on an empty cache raises the same error.
\<close>

theorem load_all_vectors_corrupt:
  assumes "conn s = Some Open"
    and "db s = good @ (doc_id, text, blob) # rest"
    and "\<forall>(i, t, b) \<in> set good. \<exists>v. loads env b = Inr v"
    and "loads env blob = Inl e"
    and "load_all_vectors env s = (r, s')"
  shows "r = Inl e
    \<and> (\<forall>i t b. map_of (rev good) i = Some (t, b) \<longrightarrow>
          (\<exists>v. loads env b = Inr v \<and> map_of (vectors s') i = Some v
              \<and> map_of (texts s') i = Some t))
    \<and> (\<forall>i. map_of (rev good) i = None \<longrightarrow>
          map_of (vectors s') i = map_of (vectors s) i
        \<and> map_of (texts s') i = map_of (texts s) i)
    \<and> (vectors s = [] \<and> texts s = [] \<and> distinct (map fst good) \<longrightarrow>
          texts s' = map (\<lambda>(i, t, b). (i, t)) good
        \<and> map (\<lambda>(i, v). (i, Inr v)) (vectors s') = map (\<lambda>(i, t, b). (i, loads env b)) good)
    \<and> fst ` set (vectors s') = fst ` set (vectors s) \<union> fst ` set good
    \<and> fst ` set (texts s') = fst ` set (texts s) \<union> fst ` set good
    \<and> db s' = db s
    \<and> (vectors s = [] \<longrightarrow> similarity_search env s query k = (Inl e, s'))"
proof -
  from assms(1,5) have l: "load_loop env (db s) s = (r, s')"
    by (simp add: load_all_vectors_open)
  from load_loop_stops [OF assms(3,4), of doc_id "text" rest s] l assms(2)
  have a: "r = Inl e" and s': "s' = snd (load_loop env good s)"
    by simp_all
  have b: "\<exists>v. loads env b = Inr v \<and> map_of (vectors s') i = Some v
              \<and> map_of (texts s') i = Some t"
    if "map_of (rev good) i = Some (t, b)" for i t b
    unfolding s' using assms(3) that by (rule load_loop_ok(2))
  have c: "map_of (vectors s') i = map_of (vectors s) i
        \<and> map_of (texts s') i = map_of (texts s) i"
    if "map_of (rev good) i = None" for i
    unfolding s' using assms(3) that by (rule load_loop_ok(3))
  have d: "texts s' = map (\<lambda>(i, t, b). (i, t)) good
        \<and> map (\<lambda>(i, v). (i, Inr v)) (vectors s') = map (\<lambda>(i, t, b). (i, loads env b)) good"
    if "vectors s = [] \<and> texts s = [] \<and> distinct (map fst good)"
    using load_loop_fresh [OF assms(3), of s] that by (simp add: s')
  from load_loop_corrupt [OF assms(3,4), of doc_id "text" rest s] l assms(2)
  have k: "fst ` set (vectors s') = fst ` set (vectors s) \<union> fst ` set good"
    "fst ` set (texts s') = fst ` set (texts s) \<union> fst ` set good"
    by simp_all
  from l have f: "db s' = db s" by (metis load_loop_frame(1) snd_conv)
  have g: "similarity_search env s query k = (Inl e, s')" if "vectors s = []"
    using that assms(5) a by (simp add: similarity_search_def)
  from b have B: "\<forall>i t b. map_of (rev good) i = Some (t, b) \<longrightarrow>
          (\<exists>v. loads env b = Inr v \<and> map_of (vectors s') i = Some v
              \<and> map_of (texts s') i = Some t)"
    by blast
  from c have C: "\<forall>i. map_of (rev good) i = None \<longrightarrow>
          map_of (vectors s') i = map_of (vectors s) i
        \<and> map_of (texts s') i = map_of (texts s) i"
    by blast
  from d have D: "vectors s = [] \<and> texts s = [] \<and> distinct (map fst good) \<longrightarrow>
          texts s' = map (\<lambda>(i, t, b). (i, t)) good
        \<and> map (\<lambda>(i, v). (i, Inr v)) (vectors s') = map (\<lambda>(i, t, b). (i, loads env b)) good"
    by (rule impI)
  from g have G: "vectors s = [] \<longrightarrow> similarity_search env s query k = (Inl e, s')"
    by (rule impI)
  from a B C D k f G show ?thesis by (intro conjI)
qed

theorem load_all_vectors_corrupt_witness:
  "conn (init_store [(''a'', ''ta'', Pickled [Fin 1, Fin 0]), (''b'', ''tb'', Garbage),
                     (''c'', ''tc'', Pickled [Fin 0, Fin 1])]) = Some Open
   \<and> loads demo_env Garbage = Inl UnpicklingError
   \<and> loads demo_env (Pickled [Fin 1, Fin 0]) = Inr [Fin 1, Fin 0]
   \<and> fst (load_all_vectors demo_env
        (init_store [(''a'', ''ta'', Pickled [Fin 1, Fin 0]), (''b'', ''tb'', Garbage),
                     (''c'', ''tc'', Pickled [Fin 0, Fin 1])])) = Inl UnpicklingError
   \<and> texts (snd (load_all_vectors demo_env
        (init_store [(''a'', ''ta'', Pickled [Fin 1, Fin 0]), (''b'', ''tb'', Garbage),
                     (''c'', ''tc'', Pickled [Fin 0, Fin 1])]))) = [(''a'', ''ta'')]
   \<and> map_of (vectors (snd (load_all_vectors demo_env
        (init_store [(''a'', ''ta'', Pickled [Fin 1, Fin 0]), (''b'', ''tb'', Garbage),
                     (''c'', ''tc'', Pickled [Fin 0, Fin 1])])))) ''a'' = Some [Fin 1, Fin 0]
   \<and> map_of (vectors (snd (load_all_vectors demo_env
        (init_store [(''a'', ''ta'', Pickled [Fin 1, Fin 0]), (''b'', ''tb'', Garbage),
                     (''c'', ''tc'', Pickled [Fin 0, Fin 1])])))) ''c'' = None"
proof -
  let ?s = "init_store [(''a'', ''ta'', Pickled [Fin 1, Fin 0]), (''b'', ''tb'', Garbage),
                        (''c'', ''tc'', Pickled [Fin 0, Fin 1])]"
  let ?s' = "snd (load_all_vectors demo_env ?s)"
  have c: "conn ?s = Some Open" by (simp add: init_store_def init_db_def)
  have d: "db ?s = [(''a'', ''ta'', Pickled [Fin 1, Fin 0])] @ (''b'', ''tb'', Garbage)
                     # [(''c'', ''tc'', Pickled [Fin 0, Fin 1])]"
    by (simp add: init_store_def init_db_def)
  have g: "\<forall>(i, t, b) \<in> set [(''a'', ''ta'', Pickled [Fin 1, Fin 0])].
             \<exists>v. loads demo_env b = Inr v"
    by (simp add: demo_env_def demo_loads_def)
  have b: "loads demo_env Garbage = Inl UnpicklingError"
    and p: "loads demo_env (Pickled [Fin 1, Fin 0]) = Inr [Fin 1, Fin 0]"
    by (simp_all add: demo_env_def demo_loads_def)
  have e: "vectors ?s = [] \<and> texts ?s = []
           \<and> distinct (map fst [(''a'', ''ta'', Pickled [Fin 1, Fin 0])])"
    by (simp add: init_store_def init_db_def)
  note t = load_all_vectors_corrupt [OF c d g b prod.collapse [symmetric]]
  note t1 = t [THEN conjunct1]
    and t2 = t [THEN conjunct2, THEN conjunct1]
    and t3 = t [THEN conjunct2, THEN conjunct2, THEN conjunct1]
    and t4 = t [THEN conjunct2, THEN conjunct2, THEN conjunct2, THEN conjunct1]
  have 1: "fst (load_all_vectors demo_env ?s) = Inl UnpicklingError" by (rule t1)
  from t4 e have 2: "texts ?s' = [(''a'', ''ta'')]" by simp
  have "map_of (rev [(''a'', ''ta'', Pickled [Fin 1, Fin 0])]) ''a''
          = Some (''ta'', Pickled [Fin 1, Fin 0])"
    by simp
  with t2 have "\<exists>v. loads demo_env (Pickled [Fin 1, Fin 0]) = Inr v
                 \<and> map_of (vectors ?s') ''a'' = Some v"
    by blast
  with p have 3: "map_of (vectors ?s') ''a'' = Some [Fin 1, Fin 0]" by simp
  have "map_of (rev [(''a'', ''ta'', Pickled [Fin 1, Fin 0])]) ''c'' = None" by simp
  with t3 have "map_of (vectors ?s') ''c'' = map_of (vectors ?s) ''c''" by blast
  then have 4: "map_of (vectors ?s') ''c'' = None" by (simp add: init_store_def init_db_def)
  from c b p 1 2 3 4 show ?thesis by (intro conjI)
qed


section \<open>Similarity search: properties\<close>

text \<open>
  Claim C2, as stated, fails for a negative \<open>k\<close>: over three records,
  \<open>k = -1\<close> returns the two best pairs, not an empty sequence.
\<close>

theorem similarity_search_negative_k_counterexample:
  "fst (similarity_search demo_env (init_store demo_rows) ''q'' (- 1)) =
     Inr [(''ta'', Fin 1), (''tc'', Fin 1)]"
  by (simp add: demo_simps search_simps)

text \<open>
  Claim C2, amended. When \<open>similarity_search\<close> returns and the cache holds \<open>n\<close>
  records after hydration, the result has \<open>min k n\<close> pairs for \<open>k \<ge> 0\<close> (none
  for \<open>k = 0\<close>) and \<open>n - |k|\<close> pairs, or none if that is negative, for \<open>k < 0\<close>
  (the slice \<open>[:k]\<close> drops the last \<open>|k|\<close>). On a store that was never populated
  it returns the empty sequence for every \<open>k\<close>.
\<close>

theorem similarity_search_count:
  "(similarity_search env s query k = (Inr res, s') \<longrightarrow>
      (0 \<le> k \<longrightarrow> length res = min (nat k) (length (vectors s')))
    \<and> (k < 0 \<longrightarrow> length res = length (vectors s') - nat (- k)))
   \<and> similarity_search env (init_store []) query k = (Inr [], init_store [])"
proof (intro conjI impI)
  assume a: "similarity_search env s query k = (Inr res, s')"
  from similarity_search_Inr(3) [OF a] obtain sims
    where s: "similarities env (encode env query) (texts s') (vectors s') = Inr sims"
      and r: "res = slice_to k (sort_reverse snd sims)" by blast
  have l: "length sims = length (vectors s')"
    by (rule similarities_length [OF s])
  show "length res = min (nat k) (length (vectors s'))" if "0 \<le> k"
    using that by (simp add: r length_slice_to l)
  show "length res = length (vectors s') - nat (- k)" if "k < 0"
    using that by (simp add: r length_slice_to l)
next
  show "similarity_search env (init_store []) query k = (Inr [], init_store [])"
    by (rule similarity_search_never_populated)
qed

theorem similarity_search_count_witness:
  "similarity_search demo_env demo_store ''q'' 2 =
     (Inr [(''ta'', Fin 1), (''tc'', Fin 1)], demo_store)
   \<and> length [(''ta'', Fin 1), (''tc'', Fin 1)] = min (nat 2) (length (vectors demo_store))
   \<and> similarity_search demo_env (init_store []) ''q'' 2 = (Inr [], init_store [])"
proof -
  note t = similarity_search_count [of demo_env demo_store "''q''" 2
      "[(''ta'', Fin 1), (''tc'', Fin 1)]" demo_store]
  have z: "(0::int) \<le> 2" by simp
  from t demo_search_2 z
  have a: "length [(''ta'', Fin 1), (''tc'', Fin 1)] = min (nat 2) (length (vectors demo_store))"
    by blast
  from t have b: "similarity_search demo_env (init_store []) ''q'' 2 = (Inr [], init_store [])"
    by (rule conjunct2)
  from demo_search_2 a b show ?thesis by blast
qed



text \<open>
  Claim C5, as stated, fails when a similarity is NaN: a stored vector with a NaN
  entry gets the similarity NaN, the result pairs it with another record, and
  \<open>>=\<close> is false between a number and NaN.
\<close>

theorem similarity_search_nan_counterexample:
  "fst (similarity_search demo_env (init_store nan_rows) ''q'' 2) =
     Inr [(''ta'', Fin 1), (''tn'', NaN)]
   \<and> \<not> float_ge (snd ([(''ta'', Fin 1), (''tn'', NaN)] ! 0))
                  (snd ([(''ta'', Fin 1), (''tn'', NaN)] ! Suc 0))"
  by (simp add: demo_simps search_simps float_ge_def)

text \<open>
  Claim C5, amended. When no cached record has the similarity NaN, each result's
  similarity in the sequence returned by \<open>similarity_search\<close> is greater than or
  equal to that of the result after it.
\<close>

theorem similarity_search_sorted:
  assumes "similarity_search env s query k = (Inr res, s')"
    and "\<forall>(doc_id, v) \<in> set (vectors s'). cosine env (encode env query) v \<noteq> Inr NaN"
  shows "\<forall>i. Suc i < length res \<longrightarrow> float_ge (snd (res ! i)) (snd (res ! Suc i))"
proof (intro allI impI)
  fix i assume i: "Suc i < length res"
  from similarity_search_Inr(3) [OF assms(1)] obtain sims
    where s: "similarities env (encode env query) (texts s') (vectors s') = Inr sims"
      and res: "res = slice_to k (sort_reverse snd sims)" by blast
  obtain n where n: "res = take n (sort_reverse snd sims)"
    using slice_to_take [of k "sort_reverse snd sims"] res by auto
  have "sorted_wrt (\<lambda>a b. \<not> float_lt (snd a) (snd b)) res"
    unfolding n by (intro sorted_wrt_take sorted_sort_reverse)
  with i have lt: "\<not> float_lt (snd (res ! i)) (snd (res ! Suc i))"
    by (simp add: sorted_wrt_iff_nth_less)
  have nn: "snd p \<noteq> NaN" if "p \<in> set res" for p
  proof -
    from that n have "p \<in> set sims" by (auto dest: in_set_takeD)
    then obtain j where j: "j < length sims" "sims ! j = p"
      by (auto simp: in_set_conv_nth)
    obtain d v where dv: "vectors s' ! j = (d, v)" by (cases "vectors s' ! j")
    obtain tx sim where p: "p = (tx, sim)" by (cases p)
    from similarities_Inr [OF s] j
    have jl: "j < length (vectors s')"
      and "(\<lambda>(doc_id, v) (tx, sim). map_of (texts s') doc_id = Some tx
              \<and> cosine env (encode env query) v = Inr sim) (vectors s' ! j) (sims ! j)"
      by (auto dest: list_all2_lengthD list_all2_nthD2)
    then have c: "cosine env (encode env query) v = Inr sim"
      by (simp add: dv p j)
    from jl dv have "(d, v) \<in> set (vectors s')" by (metis nth_mem)
    with assms(2) have "cosine env (encode env query) v \<noteq> Inr NaN" by blast
    with c show ?thesis by (auto simp: p)
  qed
  from i have "res ! i \<in> set res" "res ! Suc i \<in> set res" by simp_all
  with nn lt show "float_ge (snd (res ! i)) (snd (res ! Suc i))"
    by (simp add: float_ge_def)
qed

theorem similarity_search_sorted_witness:
  "similarity_search demo_env demo_store ''q'' 3 =
     (Inr [(''ta'', Fin 1), (''tc'', Fin 1), (''tb'', Fin 0)], demo_store)
   \<and> map (\<lambda>(doc_id, v). cosine demo_env (encode demo_env ''q'') v) (vectors demo_store)
       = [Inr (Fin 1), Inr (Fin 0), Inr (Fin 1)]
   \<and> float_ge (Fin 1) (Fin 0)"
proof -
  let ?res = "[(''ta'', Fin 1), (''tc'', Fin 1), (''tb'', Fin 0)]"
  have m: "map (\<lambda>(doc_id, v). cosine demo_env (encode demo_env ''q'') v) (vectors demo_store)
       = [Inr (Fin 1), Inr (Fin 0), Inr (Fin 1)]"
    by (simp add: demo_simps search_simps)
  have h: "\<forall>(doc_id, v) \<in> set (vectors demo_store).
             cosine demo_env (encode demo_env ''q'') v \<noteq> Inr NaN"
    by (simp add: demo_simps search_simps)
  from similarity_search_sorted [OF demo_search_3 h]
  have "Suc (Suc 0) < length ?res
        \<longrightarrow> float_ge (snd (?res ! Suc 0)) (snd (?res ! Suc (Suc 0)))"
    by (rule spec)
  then have g: "float_ge (Fin 1) (Fin 0)" by simp
  from demo_search_3 m g show ?thesis by (intro conjI)
qed


section \<open>Teardown: properties\<close>

text \<open>
  Claim C9. \<open>close\<close> changes nothing but the connection, which it leaves closed:
  both dictionaries and the table are as before. On a cache that is not empty,
  \<open>similarity_search\<close> after \<open>close\<close> returns what it returned before, leaves
  the store as it is, and its result does not depend on the content of the table.
\<close>

theorem close_keeps_cache:
  "vectors (close s) = vectors s \<and> texts (close s) = texts s \<and> db (close s) = db s
   \<and> (conn s \<noteq> None \<longrightarrow> conn (close s) = Some Closed)
   \<and> (vectors s \<noteq> [] \<longrightarrow>
        similarity_search env (close s) query k
          = (fst (similarity_search env s query k), close s)
      \<and> snd (similarity_search env s query k) = s
      \<and> (\<forall>rows. fst (similarity_search env ((close s)\<lparr>db := rows\<rparr>) query k)
                  = fst (similarity_search env s query k)))"
  by (auto simp: close_def similarity_search_cached split: option.splits sum.splits)

theorem close_keeps_cache_witness:
  "vectors demo_store \<noteq> [] \<and> conn demo_store \<noteq> None
   \<and> conn (close demo_store) = Some Closed
   \<and> vectors (close demo_store) = vectors demo_store
   \<and> similarity_search demo_env (close demo_store) ''q'' 3 =
       (Inr [(''ta'', Fin 1), (''tc'', Fin 1), (''tb'', Fin 0)], close demo_store)"
proof -
  note t = close_keeps_cache [of demo_store demo_env "''q''" 3]
  have n: "vectors demo_store \<noteq> []" and c: "conn demo_store \<noteq> None"
    by (simp_all add: demo_store_def)
  from t c have 1: "conn (close demo_store) = Some Closed" by blast
  from t have 2: "vectors (close demo_store) = vectors demo_store" by blast
  from t n have "similarity_search demo_env (close demo_store) ''q'' 3
      = (fst (similarity_search demo_env demo_store ''q'' 3), close demo_store)"
    by blast
  then have 3: "similarity_search demo_env (close demo_store) ''q'' 3 =
       (Inr [(''ta'', Fin 1), (''tc'', Fin 1), (''tb'', Fin 0)], close demo_store)"
    by (simp add: demo_search_3)
  from n c 1 2 3 show ?thesis by (intro conjI)
qed

end
